theory Spec2Isabelle
  imports Main "HOL-Library.Char_ord" "HOL-Library.List_Lexorder" "HOL-Library.Sublist"
    "HOL-Library.Multiset"
begin

section \<open>The CryptoKit example notebook\<close>

text \<open>
  The repository's source is the notebook \<^verbatim>\<open>Example.ipynb\<close>: cells that load
  \<^verbatim>\<open>config.json\<close>, build the credentials, call the \<^verbatim>\<open>crypto_kit\<close> facades
  (Logger, Listener, AlpacaOrderManager) and read the log table back with
  \<^verbatim>\<open>fetch_all_logs\<close>. The facades' own code is not part of the notebook; where a
  cell calls one, the call's outcome is a parameter of the cell's model.
\<close>

subsection \<open>Python values and exceptions\<close>

text \<open>
  What \<^verbatim>\<open>json.load\<close> returns: None, a bool, a number, a str, a list, or a dict.
  A dict is kept as its list of items; \<open>map_of\<close> looks a key up.
\<close>

datatype json =
    JNull
  | JBool bool
  | JNum int
  | JStr string
  | JArr "json list"
  | JObj "(string \<times> json) list"

datatype py_exc =
    AttributeError
  | KeyboardInterrupt
  | OtherException string

text \<open>
  \<^verbatim>\<open>v.get(k, default)\<close>: only a dict has the method; on any other value the
  attribute lookup raises AttributeError.
\<close>

fun py_get :: "json \<Rightarrow> string \<Rightarrow> json \<Rightarrow> py_exc + json" where
  "py_get (JObj d) k dflt = Inr (case map_of d k of None \<Rightarrow> dflt | Some v \<Rightarrow> v)"
| "py_get JNull k dflt = Inl AttributeError"
| "py_get (JBool b) k dflt = Inl AttributeError"
| "py_get (JNum n) k dflt = Inl AttributeError"
| "py_get (JStr s) k dflt = Inl AttributeError"
| "py_get (JArr xs) k dflt = Inl AttributeError"

subsection \<open>Credentials (cell 3)\<close>

text \<open>
  \<^verbatim>\<open>
  alpaca_credentials = APIKey(
      key=config.get("alpaca", {}).get("key", ""),
      secret=config.get("alpaca", {}).get("secret", "")
  )
  \<close>
  The two arguments are evaluated left to right, then the class is called. The class
  \<^verbatim>\<open>APIKey\<close> comes from \<^verbatim>\<open>crypto_kit\<close>; the cell's model takes it as the
  parameter \<open>mk\<close>.
\<close>

definition alpaca_credentials :: "(json \<Rightarrow> json \<Rightarrow> py_exc + 'k) \<Rightarrow> json \<Rightarrow> py_exc + 'k" where
  "alpaca_credentials mk config =
     (case py_get config ''alpaca'' (JObj []) of
        Inl e \<Rightarrow> Inl e
      | Inr a \<Rightarrow>
          (case py_get a ''key'' (JStr '''') of
             Inl e \<Rightarrow> Inl e
           | Inr k \<Rightarrow>
               (case py_get config ''alpaca'' (JObj []) of
                  Inl e \<Rightarrow> Inl e
                | Inr a' \<Rightarrow>
                    (case py_get a' ''secret'' (JStr '''') of
                       Inl e \<Rightarrow> Inl e
                     | Inr s \<Rightarrow> mk k s))))"

record api_key =
  key :: json
  secret :: json

text \<open>
  Modelled from the spec: the class \<^verbatim>\<open>APIKey\<close> of \<^verbatim>\<open>crypto_kit\<close> is not in the
  notebook. The spec's data model has Credentials as the pair \<open>{key, secret}\<close>,
  "supplied at construction, held for the lifetime of the owning client facade": the
  constructor stores its two arguments and checks nothing.
\<close>

definition APIKey :: "json \<Rightarrow> json \<Rightarrow> py_exc + api_key" where
  "APIKey k s = Inr \<lparr>key = k, secret = s\<rparr>"

text \<open>The value \<^verbatim>\<open>d.get(k, "")\<close> of a dict given by its items.\<close>

definition field_or_empty :: "(string \<times> json) list \<Rightarrow> string \<Rightarrow> json" where
  "field_or_empty d k = (case map_of d k of None \<Rightarrow> JStr '''' | Some v \<Rightarrow> v)"

subsection \<open>The log table and \<^verbatim>\<open>fetch_all_logs\<close> (cell 21)\<close>

text \<open>
  A row of the table \<^verbatim>\<open>logs\<close> as the notebook prints it: the columns
  \<^verbatim>\<open>id\<close>, \<^verbatim>\<open>timestamp\<close> (text, \<^verbatim>\<open>YYYY-MM-DD HH:MM:SS\<close>, one-second
  resolution) and \<^verbatim>\<open>message\<close>. The table is the list of its rows in insertion
  (rowid) order. Text is compared byte by byte, which is the lexicographic order of
  \<open>string\<close>.
\<close>

record log_entry =
  row_id :: nat
  timestamp :: string
  message :: string

text \<open>
  \<^verbatim>\<open>ORDER BY timestamp DESC\<close>: the rows by timestamp, latest first. The query names
  no second sort key; rows with equal timestamps come out in rowid order, as the
  notebook's printed result shows (ids 20, 21, 22, all of 15:59:19, in that order).
  \<open>insert_desc\<close> puts a row in front of the first row that is not later than it.
\<close>

fun insert_desc :: "log_entry \<Rightarrow> log_entry list \<Rightarrow> log_entry list" where
  "insert_desc r [] = [r]"
| "insert_desc r (x # xs) =
     (if timestamp x \<le> timestamp r then r # x # xs else x # insert_desc r xs)"

definition order_by_timestamp_desc :: "log_entry list \<Rightarrow> log_entry list" where
  "order_by_timestamp_desc rows = foldr insert_desc rows []"

text \<open>
  \<^verbatim>\<open>
  def fetch_all_logs(db_path):
      conn = sqlite3.connect(db_path)
      query = "SELECT * FROM logs ORDER BY timestamp DESC"
      logs_df = pd.read_sql_query(query, conn)
      conn.close()
      return logs_df
  \<close>
  The argument is the table stored in the file at \<^verbatim>\<open>db_path\<close>; the result is the
  data frame's rows. The query only reads.
\<close>

definition fetch_all_logs :: "log_entry list \<Rightarrow> log_entry list" where
  "fetch_all_logs logs = order_by_timestamp_desc logs"

text \<open>Rows ordered by timestamp, latest first.\<close>

definition timestamp_desc :: "log_entry list \<Rightarrow> bool" where
  "timestamp_desc rows = sorted_wrt (\<lambda>a b. timestamp b \<le> timestamp a) rows"

subsection \<open>The Logger\<close>

text \<open>
  The Logger writes to the table of the database file and to the console.
\<close>

record logger =
  store :: "log_entry list"
  console :: "string list"

text \<open>The auto-incremented id: one more than the largest id of the table.\<close>

definition next_id :: "log_entry list \<Rightarrow> nat" where
  "next_id rows = Suc (foldr max (map row_id rows) 0)"

definition new_entry :: "string \<Rightarrow> string \<Rightarrow> log_entry list \<Rightarrow> log_entry" where
  "new_entry now m rows = \<lparr>row_id = next_id rows, timestamp = now, message = m\<rparr>"

text \<open>
  Modelled from the spec: \<^verbatim>\<open>Logger.log\<close> is code of \<^verbatim>\<open>crypto_kit\<close>, which the
  notebook only calls. The spec: "\<^verbatim>\<open>log(message: string) -> void\<close>. Side effects:
  writes one LogEntry row with current timestamp to durable storage; concurrently emits
  the same text to a console/error stream", and a LogEntry is
  "{id: auto-incrementing integer, timestamp: date-time, message: text}".
  \<open>now\<close> is the clock's reading at the call.
\<close>

definition log :: "string \<Rightarrow> string \<Rightarrow> logger \<Rightarrow> logger" where
  "log now m L =
     L\<lparr>store := store L @ [new_entry now m (store L)], console := console L @ [m]\<rparr>"

text \<open>
  The Logger's operations, for runs of the component: a write with the clock's reading
  and the message, or a read of the whole table.
\<close>

datatype logger_op = Log string string | FetchAll

fun apply_op :: "logger_op \<Rightarrow> logger \<Rightarrow> logger" where
  "apply_op (Log now m) L = log now m L"
| "apply_op FetchAll L = L"

fun run_ops :: "logger_op list \<Rightarrow> logger \<Rightarrow> logger" where
  "run_ops [] L = L"
| "run_ops (x # xs) L = run_ops xs (apply_op x L)"

subsection \<open>Continuous price updates (cell 9)\<close>

text \<open>
  A PricePoint as the spec's data model has it; the price is kept in hundredths, since
  nothing here computes with it.
\<close>

record price_point =
  symbol :: string
  price :: int

text \<open>What the cell prints, and what it does to the outside.\<close>

datatype line =
    StartingListener
  | LivePriceUpdate string int
  | FailedUpdate
  | ListenerStopped

datatype event =
    FetchPrice string
  | Print line
  | Sleep nat

text \<open>
  What the outside does in one iteration: the value \<^verbatim>\<open>listener.fetch_price\<close>
  returns (None or a PricePoint) or the exception it raises, an exception arriving while
  the line is printed, and one arriving during \<^verbatim>\<open>time.sleep\<close>.
\<close>

record iteration =
  fetch_price_result :: "py_exc + price_point option"
  print_raises :: "py_exc option"
  sleep_raises :: "py_exc option"

text \<open>
  \<^verbatim>\<open>
  price = listener.fetch_price("BTC/USDT")
  if price:
      print(f"Live price update: {price.symbol} is {price.price}")
  else:
      print("Failed to fetch live price update.")
  time.sleep(1)
  \<close>
  The result is the events so far and the exception that ended the body, if any.
\<close>

definition update_line :: "price_point option \<Rightarrow> line" where
  "update_line p =
     (case p of Some pp \<Rightarrow> LivePriceUpdate (symbol pp) (price pp) | None \<Rightarrow> FailedUpdate)"

definition loop_body :: "iteration \<Rightarrow> event list \<times> py_exc option" where
  "loop_body it =
     (case fetch_price_result it of
        Inl e \<Rightarrow> ([FetchPrice ''BTC/USDT''], Some e)
      | Inr p \<Rightarrow>
          (case print_raises it of
             Some e \<Rightarrow> ([FetchPrice ''BTC/USDT''], Some e)
           | None \<Rightarrow>
               ([FetchPrice ''BTC/USDT'', Print (update_line p), Sleep 1], sleep_raises it)))"

text \<open>\<^verbatim>\<open>for _ in range(5)\<close>: the body once per index, until an exception ends it.\<close>

fun for_range :: "nat list \<Rightarrow> (nat \<Rightarrow> iteration) \<Rightarrow> event list \<times> py_exc option" where
  "for_range [] env = ([], None)"
| "for_range (i # rest) env =
     (case loop_body (env i) of
        (ev, Some e) \<Rightarrow> (ev, Some e)
      | (ev, None) \<Rightarrow> (case for_range rest env of (ev', r) \<Rightarrow> (ev @ ev', r)))"

text \<open>
  \<^verbatim>\<open>
  print("Starting listener for live prices:")
  try:
      for _ in range(5): ...
  except KeyboardInterrupt:
      print("Listener stopped.")
  \<close>
  The handler catches KeyboardInterrupt only; any other exception leaves the cell.
\<close>

definition continuous_updates :: "(nat \<Rightarrow> iteration) \<Rightarrow> event list \<times> py_exc option" where
  "continuous_updates env =
     (case for_range [0..<5] env of
        (ev, Some KeyboardInterrupt) \<Rightarrow> (Print StartingListener # ev @ [Print ListenerStopped], None)
      | (ev, r) \<Rightarrow> (Print StartingListener # ev, r))"

text \<open>
  The exception the outside raises first in an iteration, if any; an iteration is quiet
  when there is none.
\<close>

definition raised :: "iteration \<Rightarrow> py_exc option" where
  "raised it =
     (case fetch_price_result it of
        Inl e \<Rightarrow> Some e
      | Inr p \<Rightarrow> (case print_raises it of Some e \<Rightarrow> Some e | None \<Rightarrow> sleep_raises it))"

definition quiet :: "iteration \<Rightarrow> bool" where
  "quiet it = (raised it = None)"

text \<open>
  The value \<^verbatim>\<open>fetch_price\<close> returned in an iteration, and the trace of an
  iteration in which nothing raises: the call, the printed line, the sleep of one second.
\<close>

definition returned :: "iteration \<Rightarrow> price_point option" where
  "returned it = (case fetch_price_result it of Inr p \<Rightarrow> p | Inl e \<Rightarrow> None)"

definition quiet_trace :: "iteration \<Rightarrow> event list" where
  "quiet_trace it = [FetchPrice ''BTC/USDT'', Print (update_line (returned it)), Sleep 1]"

text \<open>The calls of \<^verbatim>\<open>fetch_price\<close> in a trace, and the arguments of its sleeps.\<close>

definition fetch_calls :: "event list \<Rightarrow> nat" where
  "fetch_calls ev = length (filter (\<lambda>e. case e of FetchPrice s \<Rightarrow> True | _ \<Rightarrow> False) ev)"

definition sleeps :: "event list \<Rightarrow> nat list" where
  "sleeps ev = concat (map (\<lambda>e. case e of Sleep n \<Rightarrow> [n] | _ \<Rightarrow> []) ev)"

text \<open>
  Two iterations for examples: one in which the venue answers and nothing raises, and
  one in which the price is absent and the interrupt arrives during the sleep.
\<close>

definition tick :: iteration where
  "tick = \<lparr>fetch_price_result = Inr (Some \<lparr>symbol = ''BTC/USDT'', price = 9334551\<rparr>),
           print_raises = None, sleep_raises = None\<rparr>"

definition interrupted_sleep :: iteration where
  "interrupted_sleep = \<lparr>fetch_price_result = Inr None,
           print_raises = None, sleep_raises = Some KeyboardInterrupt\<rparr>"

subsection \<open>Rows of the printed table\<close>

text \<open>
  Four rows as cell 21 prints them (messages shortened): ids 20, 21 and 22 carry the same
  timestamp, id 23 a later one.
\<close>

definition row20 :: log_entry where
  "row20 = \<lparr>row_id = 20, timestamp = ''2024-12-23 15:59:19'', message = ''Fetched positions''\<rparr>"

definition row21 :: log_entry where
  "row21 = \<lparr>row_id = 21, timestamp = ''2024-12-23 15:59:19'', message = ''Exiting position''\<rparr>"

definition row22 :: log_entry where
  "row22 = \<lparr>row_id = 22, timestamp = ''2024-12-23 15:59:19'', message = ''Order placed''\<rparr>"

definition row23 :: log_entry where
  "row23 = \<lparr>row_id = 23, timestamp = ''2024-12-23 16:00:03'', message = ''Open orders: []''\<rparr>"

section \<open>Credentials: theorems\<close>

lemma alpaca_credentials_missing:
  "map_of d ''alpaca'' = None \<Longrightarrow>
     alpaca_credentials mk (JObj d) = mk (JStr '''') (JStr '''')"
  by (simp add: alpaca_credentials_def)

lemma alpaca_credentials_dict:
  "map_of d ''alpaca'' = Some (JObj a) \<Longrightarrow>
     alpaca_credentials mk (JObj d) = mk (field_or_empty a ''key'') (field_or_empty a ''secret'')"
  by (simp add: alpaca_credentials_def field_or_empty_def)

text \<open>
  C9, as the code has it. When the loaded config is a dict whose \<^verbatim>\<open>alpaca\<close> entry
  is missing or is itself a dict, building the credentials raises nothing before the
  class is called: a missing \<^verbatim>\<open>alpaca\<close> entry gives \<^verbatim>\<open>APIKey("", "")\<close>, and a
  missing \<^verbatim>\<open>key\<close> or \<^verbatim>\<open>secret\<close> field of the entry gives the empty string for
  that field (a field that is present is passed on as it is). With a constructor that
  only stores its arguments the result is a credentials object, never an exception.
\<close>

theorem alpaca_credentials_defaults:
  "(map_of d ''alpaca'' = None \<longrightarrow>
      alpaca_credentials mk (JObj d) = mk (JStr '''') (JStr '''') \<and>
      alpaca_credentials APIKey (JObj d) = Inr \<lparr>key = JStr '''', secret = JStr ''''\<rparr>) \<and>
   (map_of d ''alpaca'' = Some (JObj a) \<longrightarrow>
      alpaca_credentials mk (JObj d) =
        mk (field_or_empty a ''key'') (field_or_empty a ''secret'') \<and>
      alpaca_credentials APIKey (JObj d) =
        Inr \<lparr>key = field_or_empty a ''key'', secret = field_or_empty a ''secret''\<rparr> \<and>
      (map_of a ''key'' = None \<longrightarrow> field_or_empty a ''key'' = JStr '''') \<and>
      (map_of a ''secret'' = None \<longrightarrow> field_or_empty a ''secret'' = JStr ''''))"
  by (simp add: alpaca_credentials_missing alpaca_credentials_dict APIKey_def field_or_empty_def)

text \<open>
  Witnesses: a config with no \<^verbatim>\<open>alpaca\<close> entry, and one whose entry has a secret
  but no key.
\<close>

theorem alpaca_credentials_defaults_witness:
  "map_of [(''binance'', JObj [])] ''alpaca'' = None \<and>
   alpaca_credentials APIKey (JObj [(''binance'', JObj [])]) =
     Inr \<lparr>key = JStr '''', secret = JStr ''''\<rparr> \<and>
   map_of [(''alpaca'', JObj [(''secret'', JStr ''s3'')])] ''alpaca'' =
     Some (JObj [(''secret'', JStr ''s3'')]) \<and>
   map_of [(''secret'', JStr ''s3'')] ''key'' = None \<and>
   alpaca_credentials APIKey (JObj [(''alpaca'', JObj [(''secret'', JStr ''s3'')])]) =
     Inr \<lparr>key = JStr '''', secret = JStr ''s3''\<rparr>"
  using alpaca_credentials_defaults [of "[(''binance'', JObj [])]" APIKey "[]"]
    alpaca_credentials_defaults [of "[(''alpaca'', JObj [(''secret'', JStr ''s3'')])]" APIKey
      "[(''secret'', JStr ''s3'')]"]
  by (simp add: field_or_empty_def APIKey_def)

text \<open>
  The claim as stated ("never raises") fails on a loaded config whose \<^verbatim>\<open>alpaca\<close>
  entry is present but is not a dict: \<^verbatim>\<open>{"alpaca": null}\<close> is valid JSON,
  \<^verbatim>\<open>config.get("alpaca", {})\<close> is then None, and \<^verbatim>\<open>None.get\<close> raises
  AttributeError before any credentials object is built.
\<close>

theorem alpaca_credentials_null_entry_raises:
  "alpaca_credentials APIKey (JObj [(''alpaca'', JNull)]) = Inl AttributeError"
  by (simp add: alpaca_credentials_def)

section \<open>The log table: theorems\<close>

lemma mset_insert_desc: "mset (insert_desc r xs) = add_mset r (mset xs)"
  by (induction xs) auto

lemma set_insert_desc: "set (insert_desc r xs) = insert r (set xs)"
  by (induction xs) auto

lemma desc_insert_desc:
  "sorted_wrt (\<lambda>a b. timestamp b \<le> timestamp a) xs \<Longrightarrow>
   sorted_wrt (\<lambda>a b. timestamp b \<le> timestamp a) (insert_desc r xs)"
  by (induction xs) (auto simp: set_insert_desc)

lemma mset_order_by: "mset (order_by_timestamp_desc rows) = mset rows"
  unfolding order_by_timestamp_desc_def by (induction rows) (simp_all add: mset_insert_desc)

lemma desc_order_by: "timestamp_desc (order_by_timestamp_desc rows)"
  unfolding order_by_timestamp_desc_def timestamp_desc_def
  by (induction rows) (simp_all add: desc_insert_desc)

lemma order_by_snoc: "order_by_timestamp_desc (rows @ [r]) = foldr insert_desc rows [r]"
  by (simp add: order_by_timestamp_desc_def)

text \<open>A row later than every other row of the table comes out first.\<close>

lemma order_by_snoc_latest:
  "\<forall>x \<in> set rows. timestamp x < timestamp r \<Longrightarrow>
     order_by_timestamp_desc (rows @ [r]) = r # order_by_timestamp_desc rows"
  unfolding order_by_timestamp_desc_def by (induction rows) auto

lemma insert_desc_not_Nil: "insert_desc r xs \<noteq> []"
  by (cases xs) simp_all

lemma hd_insert_desc:
  "xs \<noteq> [] \<Longrightarrow>
     hd (insert_desc x xs) = (if timestamp (hd xs) \<le> timestamp x then x else hd xs)"
  by (cases xs) simp_all

lemma foldr_insert_not_Nil: "foldr insert_desc rows [r] \<noteq> []"
  by (cases rows) (simp_all add: insert_desc_not_Nil)

lemma set_foldr_insert: "set (foldr insert_desc rows acc) = set rows \<union> set acc"
  by (induction rows) (auto simp: set_insert_desc)

text \<open>
  A last row that is not later than some earlier row does not come out first: the first
  row of the result is one of the earlier rows.
\<close>

lemma order_by_snoc_not_latest:
  "\<exists>x \<in> set rows. timestamp r \<le> timestamp x \<Longrightarrow>
     hd (order_by_timestamp_desc (rows @ [r])) \<in> set rows"
  unfolding order_by_snoc
proof (induction rows)
  case Nil
  then show ?case by simp
next
  case (Cons x xs)
  let ?S = "foldr insert_desc xs [r]"
  have ne: "?S \<noteq> []" by (rule foldr_insert_not_Nil)
  have hd_eq: "hd (foldr insert_desc (x # xs) [r]) =
      (if timestamp (hd ?S) \<le> timestamp x then x else hd ?S)"
    using hd_insert_desc [OF ne] by simp
  show ?case
  proof (cases "timestamp (hd ?S) \<le> timestamp x")
    case True
    then show ?thesis using hd_eq by simp
  next
    case False
    have "hd ?S \<in> set xs"
    proof (cases "\<exists>y \<in> set xs. timestamp r \<le> timestamp y")
      case True
      then show ?thesis by (rule Cons.IH)
    next
      case no: False
      with Cons.prems have rx: "timestamp r \<le> timestamp x" by auto
      have "hd ?S \<in> set ?S" using ne by simp
      then have "hd ?S \<in> set xs \<or> hd ?S = r" by (auto simp: set_foldr_insert)
      then show ?thesis
      proof
        assume "hd ?S \<in> set xs" then show ?thesis .
      next
        assume "hd ?S = r"
        with False rx show ?thesis by simp
      qed
    qed
    then show ?thesis using hd_eq False by simp
  qed
qed

text \<open>
  C1, as the code has it. The row \<open>r\<close> a call \<^verbatim>\<open>log(m)\<close> wrote is the last row
  of the table, with \<open>message r = m\<close>. \<^verbatim>\<open>fetch_all_logs\<close> then returns all rows of
  the table ordered by timestamp, latest first. Its first record is \<open>r\<close> when the
  timestamp of \<open>r\<close> is strictly later than that of every earlier row; when an earlier
  row has the same (or a later) timestamp, the first record is one of the earlier rows.
\<close>

theorem fetch_all_logs_newest_first:
  "timestamp_desc (fetch_all_logs (rows @ [r]))
   \<and> mset (fetch_all_logs (rows @ [r])) = mset (rows @ [r])
   \<and> ((\<forall>x \<in> set rows. timestamp x < timestamp r) \<longrightarrow>
        fetch_all_logs (rows @ [r]) = r # fetch_all_logs rows)
   \<and> ((\<exists>x \<in> set rows. timestamp r \<le> timestamp x) \<longrightarrow>
        hd (fetch_all_logs (rows @ [r])) \<in> set rows)"
  unfolding fetch_all_logs_def
  using desc_order_by [of "rows @ [r]"] mset_order_by [of "rows @ [r]"]
    order_by_snoc_latest [of rows r] order_by_snoc_not_latest [of rows r]
  by blast

text \<open>
  Witness: after rows 20 and 21, the later row 23 comes out first, and row 22 of the
  same second does not.
\<close>

theorem fetch_all_logs_newest_first_witness:
  "timestamp row20 < timestamp row23 \<and> timestamp row21 < timestamp row23
   \<and> fetch_all_logs ([row20, row21] @ [row23]) = [row23, row20, row21]
   \<and> timestamp row22 \<le> timestamp row20
   \<and> hd (fetch_all_logs ([row20, row21] @ [row22])) = row20"
proof -
  have h1: "\<forall>x \<in> set [row20, row21]. timestamp x < timestamp row23"
    by (simp add: row20_def row21_def row23_def)
  have old: "fetch_all_logs [row20, row21] = [row20, row21]"
    by (simp add: fetch_all_logs_def order_by_timestamp_desc_def row20_def row21_def)
  have a: "fetch_all_logs ([row20, row21] @ [row23]) = row23 # fetch_all_logs [row20, row21]"
    using fetch_all_logs_newest_first [of "[row20, row21]" row23] h1 by blast
  have c: "hd (fetch_all_logs ([row20, row21] @ [row22])) = row20"
    by (simp add: fetch_all_logs_def order_by_timestamp_desc_def row20_def row21_def row22_def)
  show ?thesis using a old c
    by (simp add: row20_def row21_def row22_def row23_def)
qed

text \<open>
  The claim as stated fails when the new row shares its second with an earlier row. The
  table printed by cell 21 has such rows: right after the write of row 22
  (\<^verbatim>\<open>Order placed\<close>, 15:59:19), the query returns rows 20, 21, 22 in this order,
  and the first record's message is that of row 20.
\<close>

theorem fetch_all_logs_same_second:
  "fetch_all_logs ([row20, row21] @ [row22]) = [row20, row21, row22]
   \<and> message (hd (fetch_all_logs ([row20, row21] @ [row22]))) \<noteq> message row22"
  by (simp add: fetch_all_logs_def order_by_timestamp_desc_def row20_def row21_def row22_def)

section \<open>The Logger: theorems\<close>

lemma store_log: "store (log now m L) = store L @ [new_entry now m (store L)]"
  by (simp add: log_def)

lemma prefix_apply_op: "prefix (store L) (store (apply_op x L))"
  by (cases x) (simp_all add: store_log)

lemma prefix_run_ops: "prefix (store L) (store (run_ops xs L))"
proof (induction xs arbitrary: L)
  case Nil
  show ?case by simp
next
  case (Cons x xs)
  have "prefix (store L) (store (apply_op x L))" by (rule prefix_apply_op)
  also have "prefix (store (apply_op x L)) (store (run_ops xs (apply_op x L)))" by (rule Cons.IH)
  finally show ?case by simp
qed

text \<open>
  C7. The Logger's store is append-only: through any run of the Logger's operations the
  table before the run is a prefix of the table after it (no row is changed, removed or
  moved), a read leaves the table as it is, and a write adds exactly one row at the end.
  Every completed write is visible to every later read: the rows present after
  \<^verbatim>\<open>log(m)\<close> are among the rows \<^verbatim>\<open>fetch_all_logs\<close> returns after any further
  operations. The read returns the rows of the table, each once, ordered by timestamp,
  latest first.
\<close>

theorem logger_append_only:
  "prefix (store L) (store (run_ops ops L))
   \<and> store (apply_op FetchAll L) = store L
   \<and> store (log now m L) = store L @ [new_entry now m (store L)]
   \<and> message (new_entry now m (store L)) = m
   \<and> set (store (log now m L)) \<subseteq> set (fetch_all_logs (store (run_ops ops (log now m L))))
   \<and> mset (fetch_all_logs (store L)) = mset (store L)
   \<and> timestamp_desc (fetch_all_logs (store L))"
proof -
  have "prefix (store (log now m L)) (store (run_ops ops (log now m L)))"
    by (rule prefix_run_ops)
  then have "set (store (log now m L)) \<subseteq> set (store (run_ops ops (log now m L)))"
    by (rule set_mono_prefix)
  moreover have "set (fetch_all_logs (store (run_ops ops (log now m L)))) =
      set (store (run_ops ops (log now m L)))"
    unfolding fetch_all_logs_def by (rule mset_eq_setD) (rule mset_order_by)
  ultimately have vis: "set (store (log now m L))
      \<subseteq> set (fetch_all_logs (store (run_ops ops (log now m L))))" by simp
  show ?thesis
    using vis
    by (simp add: prefix_run_ops store_log fetch_all_logs_def mset_order_by desc_order_by
        new_entry_def)
qed

section \<open>Continuous price updates: theorems\<close>

lemma loop_body_quiet: "quiet it \<Longrightarrow> loop_body it = (quiet_trace it, None)"
  by (auto simp: quiet_def raised_def loop_body_def quiet_trace_def returned_def
      split: sum.splits option.splits)

lemma loop_body_raised: "snd (loop_body it) = raised it"
  by (auto simp: raised_def loop_body_def split: sum.splits option.splits)

lemma loop_body_fetch_calls: "fetch_calls (fst (loop_body it)) = 1"
  by (auto simp: loop_body_def fetch_calls_def split: sum.splits option.splits)

lemma loop_body_sleeps: "set (sleeps (fst (loop_body it))) \<subseteq> {1}"
  by (auto simp: loop_body_def sleeps_def split: sum.splits option.splits)

lemma fetch_calls_append: "fetch_calls (a @ b) = fetch_calls a + fetch_calls b"
  by (simp add: fetch_calls_def)

lemma sleeps_append: "sleeps (a @ b) = sleeps a @ sleeps b"
  by (simp add: sleeps_def)

lemma for_range_step:
  "loop_body (env i) = (ev, None) \<Longrightarrow>
     fst (for_range (i # ns) env) = ev @ fst (for_range ns env)
     \<and> snd (for_range (i # ns) env) = snd (for_range ns env)"
  by (simp split: prod.splits)

text \<open>While nothing raises, the loop runs every index of its range.\<close>

lemma for_range_quiet:
  "\<forall>i \<in> set ns. quiet (env i) \<Longrightarrow>
     for_range ns env = (concat (map (\<lambda>i. quiet_trace (env i)) ns), None)"
  by (induction ns) (simp_all add: loop_body_quiet)

text \<open>The first exception ends the loop, after one call more than the quiet iterations.\<close>

lemma for_range_interrupted:
  "\<forall>i \<in> set ns. quiet (env i) \<Longrightarrow> raised (env k) = Some e \<Longrightarrow>
     snd (for_range (ns @ k # rest) env) = Some e
     \<and> fetch_calls (fst (for_range (ns @ k # rest) env)) = Suc (length ns)"
proof (induction ns)
  case Nil
  then show ?case
    using loop_body_raised [of "env k"] loop_body_fetch_calls [of "env k"]
    by (auto split: prod.splits option.splits)
next
  case (Cons i ns)
  from Cons.prems have "quiet (env i)" by simp
  then have b: "loop_body (env i) = (quiet_trace (env i), None)"
    by (rule loop_body_quiet)
  from Cons have ih: "snd (for_range (ns @ k # rest) env) = Some e"
     "fetch_calls (fst (for_range (ns @ k # rest) env)) = Suc (length ns)" by simp_all
  show ?case
    using for_range_step [of env i _ "ns @ k # rest"] b ih
    by (simp add: fetch_calls_def quiet_trace_def)
qed

lemma for_range_at_most: "fetch_calls (fst (for_range ns env)) \<le> length ns"
proof (induction ns)
  case Nil
  show ?case by (simp add: fetch_calls_def)
next
  case (Cons i ns)
  show ?case
    using Cons loop_body_fetch_calls [of "env i"]
    by (auto simp: fetch_calls_append split: prod.splits option.splits)
qed

lemma for_range_sleeps: "set (sleeps (fst (for_range ns env))) \<subseteq> {1}"
proof (induction ns)
  case Nil
  show ?case by (simp add: sleeps_def)
next
  case (Cons i ns)
  show ?case
    using Cons loop_body_sleeps [of "env i"]
    by (auto simp: sleeps_append split: prod.splits option.splits)
qed

lemma upt_5: "[0..<5] = [0, 1, 2, 3, 4]"
  by (simp add: upt_rec)

text \<open>
  C10. The cell always ends, after at most five calls of \<^verbatim>\<open>fetch_price\<close>, and
  every sleep it starts is \<^verbatim>\<open>time.sleep(1)\<close>. When nothing raises, the loop makes
  exactly five iterations: five calls of \<^verbatim>\<open>fetch_price\<close>, each followed by its
  printed line and a sleep of one second, and the cell ends without an exception. When
  the first exception of the loop is a KeyboardInterrupt, in iteration \<open>k\<close>, the loop
  stops there (after \<open>k + 1\<close> calls), the cell prints \<^verbatim>\<open>Listener stopped.\<close> and ends
  without an exception.
\<close>

theorem continuous_updates_five:
  "fetch_calls (fst (continuous_updates env)) \<le> 5
   \<and> set (sleeps (fst (continuous_updates env))) \<subseteq> {1}
   \<and> ((\<forall>i<5. quiet (env i)) \<longrightarrow>
        snd (continuous_updates env) = None
        \<and> fst (continuous_updates env) =
          Print StartingListener # concat (map (\<lambda>i. quiet_trace (env i)) [0..<5])
        \<and> fetch_calls (fst (continuous_updates env)) = 5
        \<and> sleeps (fst (continuous_updates env)) = [1, 1, 1, 1, 1])
   \<and> (k < 5 \<and> (\<forall>i<k. quiet (env i)) \<and> raised (env k) = Some KeyboardInterrupt \<longrightarrow>
        snd (continuous_updates env) = None
        \<and> last (fst (continuous_updates env)) = Print ListenerStopped
        \<and> fetch_calls (fst (continuous_updates env)) = Suc k)"
proof -
  have fc: "fetch_calls (Print StartingListener # ev) = fetch_calls ev"
    "fetch_calls (ev @ [Print ListenerStopped]) = fetch_calls ev" for ev
    by (simp_all add: fetch_calls_def)
  have sl: "sleeps (Print StartingListener # ev) = sleeps ev"
    "sleeps (ev @ [Print ListenerStopped]) = sleeps ev" for ev
    by (simp_all add: sleeps_def)
  have shape: "fst (continuous_updates env) = Print StartingListener # fst (for_range [0..<5] env)
      \<or> fst (continuous_updates env) =
          Print StartingListener # fst (for_range [0..<5] env) @ [Print ListenerStopped]"
    by (auto simp: continuous_updates_def split: prod.splits option.splits py_exc.splits)
  have a: "fetch_calls (fst (continuous_updates env)) \<le> 5"
    using shape for_range_at_most [of "[0..<5]" env] by (auto simp: fc)
  have b: "set (sleeps (fst (continuous_updates env))) \<subseteq> {1}"
    using shape for_range_sleeps [of "[0..<5]" env] by (auto simp: sl)
  have c: "snd (continuous_updates env) = None
        \<and> fst (continuous_updates env) =
          Print StartingListener # concat (map (\<lambda>i. quiet_trace (env i)) [0..<5])
        \<and> fetch_calls (fst (continuous_updates env)) = 5
        \<and> sleeps (fst (continuous_updates env)) = [1, 1, 1, 1, 1]" if q: "\<forall>i<5. quiet (env i)"
  proof -
    from q have "\<forall>i \<in> set [0..<5]. quiet (env i)" by simp
    then have "for_range [0..<5] env = (concat (map (\<lambda>i. quiet_trace (env i)) [0..<5]), None)"
      by (rule for_range_quiet)
    then have cu: "continuous_updates env =
          (Print StartingListener # concat (map (\<lambda>i. quiet_trace (env i)) [0..<5]), None)"
      by (simp add: continuous_updates_def)
    show ?thesis unfolding cu
      by (simp add: upt_5 fetch_calls_def sleeps_def quiet_trace_def)
  qed
  have d: "snd (continuous_updates env) = None
        \<and> last (fst (continuous_updates env)) = Print ListenerStopped
        \<and> fetch_calls (fst (continuous_updates env)) = Suc k"
    if k: "k < 5" and q: "\<forall>i<k. quiet (env i)" and r: "raised (env k) = Some KeyboardInterrupt"
  proof -
    have "[0..<k + (5 - k)] = [0..<k] @ [k..<k + (5 - k)]"
      by (rule upt_add_eq_append) simp
    with k have split: "[0..<5] = [0..<k] @ k # [Suc k..<5]"
      by (simp add: upt_conv_Cons)
    from q have "\<forall>i \<in> set [0..<k]. quiet (env i)" by simp
    from for_range_interrupted [OF this r, of "[Suc k..<5]"]
    have fr: "snd (for_range [0..<5] env) = Some KeyboardInterrupt"
      "fetch_calls (fst (for_range [0..<5] env)) = Suc k"
      by (simp_all add: split [symmetric])
    obtain ev where ev: "for_range [0..<5] env = (ev, Some KeyboardInterrupt)"
      using fr(1) by (cases "for_range [0..<5] env") simp
    have cu: "continuous_updates env = (Print StartingListener # ev @ [Print ListenerStopped], None)"
      by (simp add: continuous_updates_def ev)
    show ?thesis using fr(2) by (simp add: cu ev fc)
  qed
  show ?thesis using a b c d by blast
qed

text \<open>
  Witness: five quiet iterations, and a run whose third iteration is interrupted during
  its sleep.
\<close>

theorem continuous_updates_five_witness:
  "quiet tick
   \<and> raised interrupted_sleep = Some KeyboardInterrupt
   \<and> snd (continuous_updates (\<lambda>i. tick)) = None
   \<and> fetch_calls (fst (continuous_updates (\<lambda>i. tick))) = 5
   \<and> sleeps (fst (continuous_updates (\<lambda>i. tick))) = [1, 1, 1, 1, 1]
   \<and> snd (continuous_updates (\<lambda>i. if i = 2 then interrupted_sleep else tick)) = None
   \<and> fetch_calls (fst (continuous_updates (\<lambda>i. if i = 2 then interrupted_sleep else tick))) = 3"
proof -
  let ?e1 = "\<lambda>i::nat. tick"
  let ?e2 = "\<lambda>i::nat. if i = 2 then interrupted_sleep else tick"
  have q: "quiet tick"
    by (simp add: quiet_def raised_def tick_def)
  have r: "raised interrupted_sleep = Some KeyboardInterrupt"
    by (simp add: raised_def interrupted_sleep_def)
  have h1: "\<forall>i<5. quiet (?e1 i)"
    using q by simp
  have h2: "(2::nat) < 5 \<and> (\<forall>i<2. quiet (?e2 i)) \<and> raised (?e2 2) = Some KeyboardInterrupt"
    using q r by simp
  have a: "snd (continuous_updates ?e1) = None
      \<and> fetch_calls (fst (continuous_updates ?e1)) = 5
      \<and> sleeps (fst (continuous_updates ?e1)) = [1, 1, 1, 1, 1]"
    using continuous_updates_five [of ?e1 0] h1 by blast
  have b: "snd (continuous_updates ?e2) = None
      \<and> fetch_calls (fst (continuous_updates ?e2)) = 3"
    using continuous_updates_five [of ?e2 2] h2 by (simp del: One_nat_def)
  show ?thesis using q r a b by simp
qed

text \<open>
  Any other exception that ends the loop is not caught by the handler and leaves the
  cell.
\<close>

lemma continuous_updates_fault_propagates:
  assumes k: "k < 5" and q: "\<forall>i<k. quiet (env i)" and r: "raised (env k) = Some e"
    and e: "e \<noteq> KeyboardInterrupt"
  shows "snd (continuous_updates env) = Some e"
proof -
  have "[0..<k + (5 - k)] = [0..<k] @ [k..<k + (5 - k)]"
    by (rule upt_add_eq_append) simp
  with k have split: "[0..<5] = [0..<k] @ k # [Suc k..<5]"
    by (simp add: upt_conv_Cons)
  from q have "\<forall>i \<in> set [0..<k]. quiet (env i)" by simp
  from for_range_interrupted [OF this r, of "[Suc k..<5]"]
  have "snd (for_range [0..<5] env) = Some e"
    by (simp add: split [symmetric])
  then obtain ev where "for_range [0..<5] env = (ev, Some e)"
    by (cases "for_range [0..<5] env") simp
  then show ?thesis using e
    by (cases e) (simp_all add: continuous_updates_def)
qed

end
